theory Spec2Isabelle
  imports Main "HOL-Library.AList" "HOL-Library.Sublist" "HOL-Library.Word"
begin

section \<open>Text, bytes and dictionaries\<close>

text \<open>
  A Python \<open>str\<close> is a sequence of Unicode code points and \<open>len\<close> counts code points,
  so a string is modelled as a list of code points, each a natural number. \<open>str_of\<close>
  embeds an ASCII literal (there the code point is the byte). \<open>bytes\<close> are lists of
  8-bit words.
\<close>

type_synonym str = "nat list"

type_synonym bytes = "8 word list"

definition str_of :: "string \<Rightarrow> str" where
  "str_of s = map of_char s"

text \<open>
  \<open>str.isspace\<close> on one code point; \<open>str.strip()\<close> and the regular expression classes
  \<open>\s\<close> and \<open>\S\<close> of a \<open>str\<close> pattern use the same set.
\<close>

definition isspace :: "nat \<Rightarrow> bool" where
  "isspace c \<longleftrightarrow>
     c \<in> {9, 10, 11, 12, 13, 28, 29, 30, 31, 32, 133, 160, 5760, 8232, 8233, 8239, 8287, 12288}
     \<or> (8192 \<le> c \<and> c \<le> 8202)"

definition strip :: "str \<Rightarrow> str" where
  "strip s = rev (dropWhile isspace (rev (dropWhile isspace s)))"

text \<open>The line boundaries of \<open>str.splitlines()\<close>; CR LF counts as one boundary.\<close>

definition is_linebreak :: "nat \<Rightarrow> bool" where
  "is_linebreak c \<longleftrightarrow> c \<in> {10, 11, 12, 13, 28, 29, 30, 133, 8232, 8233}"

fun splitlines_from :: "str \<Rightarrow> str \<Rightarrow> str list" where
  "splitlines_from cur [] = (if cur = [] then [] else [cur])"
| "splitlines_from cur (c # cs) =
     (if c = 13 \<and> cs \<noteq> [] \<and> hd cs = 10 then cur # splitlines_from [] (tl cs)
      else if is_linebreak c then cur # splitlines_from [] cs
      else splitlines_from (cur @ [c]) cs)"

definition splitlines :: "str \<Rightarrow> str list" where
  "splitlines s = splitlines_from [] s"

text \<open>
  \<open>s.split(sep)\<close> for a non-empty separator: cut at every occurrence of \<open>sep\<close>, leftmost
  first, occurrences not overlapping. (Python raises on an empty separator; the program
  only splits on \<open>'/'\<close> and on \<open>'\n\n'\<close>.)
\<close>

function split_from :: "str \<Rightarrow> str \<Rightarrow> str \<Rightarrow> str list" where
  "split_from sep cur [] = [cur]"
| "split_from sep cur (c # cs) =
     (if prefix sep (c # cs) then cur # split_from sep [] (drop (length sep - 1) cs)
      else split_from sep (cur @ [c]) cs)"
  by pat_completeness auto
termination
  by (relation "measure (\<lambda>(sep, cur, s). length s)") auto

definition split :: "str \<Rightarrow> str \<Rightarrow> str list" where
  "split s sep = split_from sep [] s"

text \<open>\<open>sep.join(xs)\<close>.\<close>

fun join :: "str \<Rightarrow> str list \<Rightarrow> str" where
  "join sep [] = []"
| "join sep [x] = x"
| "join sep (x # y # zs) = x @ sep @ join sep (y # zs)"

text \<open>
  A \<open>dict\<close> is an association list in insertion order with distinct keys.
  \<open>d[k] = v\<close> is \<open>AList.update k v d\<close>: an existing key keeps its place, a new key goes
  to the end. \<open>d.get(k, {})\<close> is \<open>dict_get d k\<close>, \<open>k in d\<close> is \<open>map_of d k \<noteq> None\<close>.
\<close>

definition is_dict :: "('k \<times> 'v) list \<Rightarrow> bool" where
  "is_dict d \<longleftrightarrow> distinct (map fst d)"

definition dict_get :: "('k \<times> ('a \<times> 'b) list) list \<Rightarrow> 'k \<Rightarrow> ('a \<times> 'b) list" where
  "dict_get d k = (case map_of d k of None \<Rightarrow> [] | Some v \<Rightarrow> v)"

text \<open>\<open>url_contents\<close>: category to (url to content).\<close>

type_synonym corpus = "(str \<times> (str \<times> str) list) list"

text \<open>\<open>found_results\<close>: category to (url to list of (line number, stripped line)).\<close>

type_synonym found = "(str \<times> (str \<times> (nat \<times> str) list) list) list"

text \<open>Both levels of \<open>url_contents\<close> are dicts.\<close>

definition is_corpus :: "corpus \<Rightarrow> bool" where
  "is_corpus contents \<longleftrightarrow> is_dict contents \<and> (\<forall>(category, urls)\<in>set contents. is_dict urls)"

section \<open>Constants and global state\<close>

definition VALID_CATEGORIES :: "str list" where
  "VALID_CATEGORIES = [str_of ''content'', str_of ''dns'', str_of ''all'']"

definition MAX_RETRIES :: nat where
  "MAX_RETRIES = 5"

definition RETRY_INTERVAL :: nat where
  "RETRY_INTERVAL = 5"

definition MAX_MESSAGE_LENGTH :: nat where
  "MAX_MESSAGE_LENGTH = 4096"

definition MAX_MESSAGES :: nat where
  "MAX_MESSAGES = 3"

text \<open>
  The module's globals. The two times are \<open>None\<close> until set; a time is a reading of
  \<open>datetime.now()\<close>, modelled as an integer.
\<close>

record globals =
  url_contents :: corpus
  last_update_time :: "int option"
  initial_load_time :: "int option"

definition initial_globals :: globals where
  "initial_globals = \<lparr>url_contents = [], last_update_time = None, initial_load_time = None\<rparr>"

datatype error =
    DownloadFailed str
  | EmptyDownload
  | TarError

section \<open>download_archive\<close>

text \<open>
  The session is the network: \<open>session url k\<close> is what request number \<open>k\<close> (from 0) to
  \<open>url\<close> gives, \<open>Some body\<close> when the request and the read succeed, \<open>None\<close> when anything
  raises. The loop carries \<open>retries\<close> and the list of sleeps made so far, and returns that
  list with the result. Request number \<open>k\<close> is made when \<open>retries = k\<close>, since a success
  returns at once.
\<close>

function download_loop ::
  "(str \<Rightarrow> nat \<Rightarrow> bytes option) \<Rightarrow> str \<Rightarrow> nat \<Rightarrow> nat list \<Rightarrow> (error + bytes) \<times> nat list" where
  "download_loop session url retries sleeps =
     (if retries < MAX_RETRIES then
        (case session url retries of
           Some data \<Rightarrow> (Inr data, sleeps)
         | None \<Rightarrow>
             (if retries + 1 < MAX_RETRIES
              then download_loop session url (retries + 1) (sleeps @ [RETRY_INTERVAL])
              else (Inl (DownloadFailed url), sleeps)))
      else (Inr [], sleeps))"
  by pat_completeness auto
termination
  by (relation "measure (\<lambda>(session, url, retries, sleeps). MAX_RETRIES - retries)") auto

definition download_archive ::
  "(str \<Rightarrow> nat \<Rightarrow> bytes option) \<Rightarrow> str \<Rightarrow> (error + bytes) \<times> nat list" where
  "download_archive session url = download_loop session url 0 []"

section \<open>download_and_parse_archive\<close>

text \<open>
  A tar member as the loop sees it: \<open>isfile()\<close>, \<open>name\<close>, and what
  \<open>tar.extractfile(member)\<close> and the read give: no stream (\<open>Absent\<close>), an exception
  while reading (\<open>Unreadable\<close>), or the bytes decoded as UTF-8 with invalid sequences
  ignored (\<open>Text\<close>).
\<close>

datatype payload = Absent | Unreadable | Text str

record member =
  isfile :: bool
  name :: str
  payload :: payload

text \<open>
  \<open>re.match(r'^! url:\s*(\S+)', first_line, re.IGNORECASE)\<close>, returning group 1.
  The match is anchored at the start; \<open>!\<close>, the space and \<open>:\<close> match themselves only;
  under IGNORECASE \<open>u\<close>, \<open>r\<close>, \<open>l\<close> match exactly their two ASCII cases. \<open>\s*\<close> is greedy
  and \<open>\S+\<close> takes the longest run of non-space characters, which must not be empty;
  giving back spaces cannot help, since \<open>\S\<close> matches no space.
\<close>

definition token_after_spaces :: "str \<Rightarrow> str option" where
  "token_after_spaces s =
     (let tok = takeWhile (\<lambda>c. \<not> isspace c) (dropWhile isspace s)
      in if tok = [] then None else Some tok)"

fun url_match :: "str \<Rightarrow> str option" where
  "url_match (c1 # c2 # c3 # c4 # c5 # c6 # rest) =
     (if c1 = 33 \<and> c2 = 32 \<and> c3 \<in> {117, 85} \<and> c4 \<in> {114, 82} \<and> c5 \<in> {108, 76} \<and> c6 = 58
      then token_after_spaces rest else None)"
| "url_match _ = None"

text \<open>
  The body of the loop over the members, up to the store: \<open>Inl\<close> when reading raises,
  \<open>Inr None\<close> when the member is passed over, \<open>Inr (Some (category, url, content))\<close> when
  it is to be stored.
\<close>

definition member_entry :: "member \<Rightarrow> error + (str \<times> str \<times> str) option" where
  "member_entry m =
     (if isfile m then
        (let parts = split (name m) [47] in
         if length parts \<ge> 3 then
           (let category = parts ! 2 in
            case payload m of
              Absent \<Rightarrow> Inr None
            | Unreadable \<Rightarrow> Inl TarError
            | Text t \<Rightarrow>
                (let lines = splitlines t in
                 if lines = [] then Inr None
                 else (case url_match (strip (hd lines)) of
                         Some url \<Rightarrow> Inr (Some (category, url, join [10] (tl lines)))
                       | None \<Rightarrow> Inr None)))
         else Inr None)
      else Inr None)"

text \<open>
  \<open>if category not in temp_url_contents: temp_url_contents[category] = {}\<close> followed by
  \<open>temp_url_contents[category][url] = content\<close>.
\<close>

definition store :: "corpus \<Rightarrow> str \<Rightarrow> str \<Rightarrow> str \<Rightarrow> corpus" where
  "store temp category url content =
     AList.update category (AList.update url content (dict_get temp category)) temp"

fun parse_members :: "member list \<Rightarrow> corpus \<Rightarrow> error + corpus" where
  "parse_members [] temp = Inr temp"
| "parse_members (m # ms) temp =
     (case member_entry m of
        Inl e \<Rightarrow> Inl e
      | Inr None \<Rightarrow> parse_members ms temp
      | Inr (Some (category, url, content)) \<Rightarrow> parse_members ms (store temp category url content))"

text \<open>
  One run of \<open>download_and_parse_archive\<close>. Its surroundings: the session (\<open>net\<close>), the
  reading \<open>datetime.now()\<close> would give (\<open>now\<close>), and \<open>untar\<close>, which stands for
  \<open>tarfile.open(..., mode='r:gz')\<close> with \<open>getmembers()\<close>: \<open>None\<close> when they raise.
  The globals are assigned only after the loop over the members has ended.
\<close>

record surroundings =
  net :: "str \<Rightarrow> nat \<Rightarrow> bytes option"
  now :: int

definition download_and_parse_archive ::
  "(bytes \<Rightarrow> member list option) \<Rightarrow> surroundings \<Rightarrow> str \<Rightarrow> globals \<Rightarrow> (error + unit) \<times> globals" where
  "download_and_parse_archive untar env archive_url g =
     (case fst (download_archive (net env) archive_url) of
        Inl e \<Rightarrow> (Inl e, g)
      | Inr archive_data \<Rightarrow>
          (if archive_data = [] then (Inl EmptyDownload, g)
           else (case untar archive_data of
                   None \<Rightarrow> (Inl TarError, g)
                 | Some members \<Rightarrow>
                     (case parse_members members [] of
                        Inl e \<Rightarrow> (Inl e, g)
                      | Inr temp_url_contents \<Rightarrow>
                          (Inr (),
                           g\<lparr>url_contents := temp_url_contents,
                             last_update_time := Some (now env),
                             initial_load_time :=
                               (case initial_load_time g of
                                  None \<Rightarrow> Some (now env)
                                | Some t \<Rightarrow> Some t)\<rparr>)))))"

text \<open>
  A sequence of runs (the first load, the hourly task, \<open>/fetchnow\<close>), each with its own
  surroundings; a run that raises is caught by its caller and the next one starts from
  the globals it left. The results are returned in order.
\<close>

fun run_cycles ::
  "(bytes \<Rightarrow> member list option) \<Rightarrow> str \<Rightarrow> surroundings list \<Rightarrow> globals \<Rightarrow> (error + unit) list \<times> globals" where
  "run_cycles untar archive_url [] g = ([], g)"
| "run_cycles untar archive_url (env # envs) g =
     (let (r, g') = download_and_parse_archive untar env archive_url g;
          (rs, g'') = run_cycles untar archive_url envs g'
      in (r # rs, g''))"

text \<open>The clock readings of the runs that returned normally, in order.\<close>

definition success_times :: "surroundings list \<Rightarrow> (error + unit) list \<Rightarrow> int list" where
  "success_times envs rs = map (now \<circ> fst) (filter (\<lambda>(env, r). r = Inr ()) (zip envs rs))"

section \<open>split_message\<close>

text \<open>The notice appended at the cut, with \<open>MAX_MESSAGES\<close> printed as \<open>3\<close>.\<close>

definition truncation_notice :: str where
  "truncation_notice =
     [42, 27880, 24847, 65306, 42, 32, 25628, 32034, 32467, 26524, 36807, 22810, 65292,
      20165, 26174, 31034, 21069, 32, 51, 32, 26465, 28040, 24687, 12290]"

text \<open>
  The loop over the parts, returning \<open>messages\<close> and \<open>current_message\<close> as they are when
  the loop is left, by exhaustion or by \<open>break\<close>.
\<close>

fun split_loop :: "str list \<Rightarrow> str list \<Rightarrow> str \<Rightarrow> str list \<times> str" where
  "split_loop [] messages current_message = (messages, current_message)"
| "split_loop (part # parts) messages current_message =
     (if length current_message + length part + 2 > MAX_MESSAGE_LENGTH then
        (if current_message \<noteq> [] then
           (if length (messages @ [current_message]) \<ge> MAX_MESSAGES
            then (messages @ [current_message] @ [truncation_notice], current_message)
            else split_loop parts (messages @ [current_message]) part)
         else split_loop parts messages part)
      else
        (if current_message \<noteq> [] then split_loop parts messages (current_message @ [10, 10] @ part)
         else split_loop parts messages part))"

definition split_message :: "str \<Rightarrow> str list" where
  "split_message message =
     (case split_loop (split message [10, 10]) [] [] of
        (messages, current_message) \<Rightarrow>
          if current_message \<noteq> [] \<and> length messages < MAX_MESSAGES
          then messages @ [current_message] else messages)"

section \<open>search and regex_search\<close>

text \<open>
  The two handlers scan the corpus with the same loops and differ in the test applied to
  a line, so the loops take the test as \<open>hit\<close>. \<open>matching_lines\<close> is the loop over
  \<open>enumerate(lines, start=1)\<close>.
\<close>

fun matching_lines :: "(str \<Rightarrow> bool) \<Rightarrow> nat \<Rightarrow> str list \<Rightarrow> (nat \<times> str) list" where
  "matching_lines hit idx [] = []"
| "matching_lines hit idx (line # lines) =
     (if hit line then (idx, strip line) # matching_lines hit (Suc idx) lines
      else matching_lines hit (Suc idx) lines)"

fun scan_urls :: "(str \<Rightarrow> bool) \<Rightarrow> str \<Rightarrow> (str \<times> str) list \<Rightarrow> found \<Rightarrow> found" where
  "scan_urls hit cat [] found_results = found_results"
| "scan_urls hit cat ((url, content) # rest) found_results =
     (if content = [] then scan_urls hit cat rest found_results
      else if matching_lines hit 1 (splitlines content) \<noteq> [] then
        scan_urls hit cat rest
          (AList.update cat
             (AList.update url (matching_lines hit 1 (splitlines content)) (dict_get found_results cat))
             found_results)
      else scan_urls hit cat rest found_results)"

fun scan_categories :: "(str \<Rightarrow> bool) \<Rightarrow> str list \<Rightarrow> corpus \<Rightarrow> found \<Rightarrow> found" where
  "scan_categories hit [] contents found_results = found_results"
| "scan_categories hit (cat # cats) contents found_results =
     scan_categories hit cats contents (scan_urls hit cat (dict_get contents cat) found_results)"

text \<open>What the scan records for one URL: nothing when no line of its content hits.\<close>

definition url_hits :: "(str \<Rightarrow> bool) \<Rightarrow> str \<Rightarrow> (nat \<times> str) list option" where
  "url_hits hit content =
     (if matching_lines hit 1 (splitlines content) = [] then None
      else Some (matching_lines hit 1 (splitlines content)))"

definition categories_to_search :: "str \<Rightarrow> str list" where
  "categories_to_search category =
     (if category = str_of ''all'' then butlast VALID_CATEGORIES else [category])"

text \<open>
  What a handler decides to answer. The text of the answer (Markdown escaping, the file
  name taken from the URL) and its pagination are computed from these values and are not
  part of the model, so a result carries the category, the keyword or pattern, and
  \<open>found_results\<close>. \<open>deliver\<close> is the last step of every branch: the answer is sent with
  \<open>reply_text\<close> when the update has a message, and otherwise only a warning is logged.
\<close>

datatype 'e outcome =
    Usage
  | InvalidCategory str
  | MissingArgument
  | InvalidPattern 'e
  | Results str str found

datatype 'e action = Reply "'e outcome" | LogNoMessage

definition deliver :: "bool \<Rightarrow> 'e outcome \<Rightarrow> 'e action" where
  "deliver has_message out = (if has_message then Reply out else LogNoMessage)"

text \<open>
  \<open>str.lower\<close> follows the Unicode tables and is taken as a parameter, \<open>lower\<close>.
  The scan of \<open>search\<close>, from \<open>found_results = {}\<close> to the end of the loops, with the
  keyword as the handler has it there (already lowered):
\<close>

definition search_found :: "(str \<Rightarrow> str) \<Rightarrow> str \<Rightarrow> str \<Rightarrow> corpus \<Rightarrow> found" where
  "search_found lower category keyword contents =
     scan_categories (\<lambda>line. sublist keyword (lower line)) (categories_to_search category) contents []"

text \<open>
  The first part of \<open>search\<close>: the checks on the arguments, ending either in an answer
  or in the category and the keyword to scan with.
\<close>

definition search_request :: "(str \<Rightarrow> str) \<Rightarrow> str list \<Rightarrow> 'e outcome + str \<times> str" where
  "search_request lower args =
     (if length args < 1 then Inl Usage
      else if prefix [47] (hd args) then
        (if lower (tl (hd args)) \<notin> set VALID_CATEGORIES then Inl (InvalidCategory (hd args))
         else if lower (join [32] (tl args)) = [] then Inl MissingArgument
         else Inr (lower (tl (hd args)), lower (join [32] (tl args))))
      else if lower (join [32] args) = [] then Inl MissingArgument
      else Inr (str_of ''all'', lower (join [32] args)))"

definition search_decide :: "(str \<Rightarrow> str) \<Rightarrow> str list \<Rightarrow> corpus \<Rightarrow> 'e outcome" where
  "search_decide lower args contents =
     (case search_request lower args of
        Inl out \<Rightarrow> out
      | Inr (category, keyword) \<Rightarrow>
          Results category keyword (search_found lower category keyword contents))"

text \<open>
  A handler reads the global \<open>url_contents\<close> and assigns no global; it returns its
  action and the globals as they were.
\<close>

definition search :: "(str \<Rightarrow> str) \<Rightarrow> bool \<Rightarrow> str list \<Rightarrow> globals \<Rightarrow> 'e action \<times> globals" where
  "search lower has_message args g =
     (deliver has_message (search_decide lower args (url_contents g)), g)"






section \<open>Values used in the examples\<close>

text \<open>\<open>str.lower\<close> on ASCII text, for the examples that need a concrete \<open>lower\<close>.\<close>

definition ascii_lower :: "str \<Rightarrow> str" where
  "ascii_lower s = map (\<lambda>c. if 65 \<le> c \<and> c \<le> 90 then c + 32 else c) s"

text \<open>
  The directive pattern as the specification writes it,
  \<open>^!\s*url:\s*(\S+)\<close> matched case-insensitively against the first line: any run of
  spaces may stand between \<open>!\<close> and \<open>url:\<close>. It is compared with \<open>url_match\<close>.
\<close>

fun specified_directive_match :: "str \<Rightarrow> str option" where
  "specified_directive_match [] = None"
| "specified_directive_match (c1 # rest) =
     (if c1 = 33 then
        (case dropWhile isspace rest of
           c3 # c4 # c5 # c6 # rest' \<Rightarrow>
             (if c3 \<in> {117, 85} \<and> c4 \<in> {114, 82} \<and> c5 \<in> {108, 76} \<and> c6 = 58
              then token_after_spaces rest' else None)
         | _ \<Rightarrow> None)
      else None)"

text \<open>A regular file as the archive is expected to hold them.\<close>

definition plain_member :: member where
  "plain_member =
     \<lparr>isfile = True, name = str_of ''./tmp/dns/x.txt'',
      payload = Text (str_of ''! url: http://a'' @ [10] @ str_of ''b'')\<rparr>"

text \<open>A regular file under a category that is neither \<open>content\<close> nor \<open>dns\<close>.\<close>

definition stray_member :: member where
  "stray_member =
     \<lparr>isfile = True, name = str_of ''./tmp/other/x.txt'',
      payload = Text (str_of ''! url: http://a'' @ [10] @ str_of ''b'')\<rparr>"

text \<open>A regular file whose first line has no space between \<open>!\<close> and \<open>url:\<close>.\<close>

definition tight_member :: member where
  "tight_member =
     \<lparr>isfile = True, name = str_of ''./tmp/dns/x.txt'',
      payload = Text (str_of ''!url: http://a'' @ [10] @ str_of ''b'')\<rparr>"

text \<open>A regular file whose read raises.\<close>

definition unreadable_member :: member where
  "unreadable_member = \<lparr>isfile = True, name = str_of ''./tmp/dns/x.txt'', payload = Unreadable\<rparr>"

text \<open>Globals as an earlier successful run left them.\<close>

definition stale_globals :: globals where
  "stale_globals =
     \<lparr>url_contents = [(str_of ''dns'', [(str_of ''http://a'', str_of ''b'')])],
      last_update_time = Some 3, initial_load_time = Some 1\<rparr>"

text \<open>
  A corpus of one file of three lines, and \<open>re.compile\<close> on the patterns of the
  examples: \<open>(\<close> raises \<open>re.error\<close>, \<open>a{4294967295}\<close> raises \<open>OverflowError\<close>, and \<open>b\<close>
  compiles.
\<close>

datatype python_exception = OverflowError | RecursionError

definition sample_corpus :: corpus where
  "sample_corpus =
     [(str_of ''dns'',
       [(str_of ''http://a'', str_of ''Ab'' @ 10 # str_of ''c'' @ 10 # str_of '' aB '')])]"


text \<open>A paragraph of 2048 letters; four of them, joined by blank lines.\<close>

definition long_paragraph :: str where
  "long_paragraph = replicate 2048 97"

definition four_long_paragraphs :: str where
  "four_long_paragraphs =
     join [10, 10] [long_paragraph, long_paragraph, long_paragraph, long_paragraph]"

section \<open>Retrying download\<close>

lemma download_loop_fail:
  "session url retries = None \<Longrightarrow> retries + 1 < MAX_RETRIES \<Longrightarrow>
   download_loop session url retries sleeps =
     download_loop session url (retries + 1) (sleeps @ [RETRY_INTERVAL])"
  by (subst download_loop.simps) simp

lemma download_loop_last:
  "session url retries = None \<Longrightarrow> retries + 1 = MAX_RETRIES \<Longrightarrow>
   download_loop session url retries sleeps = (Inl (DownloadFailed url), sleeps)"
  by (subst download_loop.simps) simp

lemma download_loop_ok:
  "session url retries = Some data \<Longrightarrow> retries < MAX_RETRIES \<Longrightarrow>
   download_loop session url retries sleeps = (Inr data, sleeps)"
  by (subst download_loop.simps) simp

text \<open>
  C5. When the first four requests fail and the fifth succeeds, \<open>download_archive\<close>
  returns the bytes of the fifth and has slept exactly four times, each time for
  \<open>RETRY_INTERVAL\<close>. When all five requests fail it raises the terminal error and has
  slept exactly four times as well: there is no sleep after the last attempt.
\<close>

theorem download_archive_retry:
  "((\<forall>k<4. session url k = None) \<and> session url 4 = Some data \<longrightarrow>
      download_archive session url = (Inr data, replicate 4 RETRY_INTERVAL)) \<and>
   ((\<forall>k<5. session url k = None) \<longrightarrow>
      download_archive session url = (Inl (DownloadFailed url), replicate 4 RETRY_INTERVAL))"
proof (intro conjI impI)
  assume a: "(\<forall>k<4. session url k = None) \<and> session url 4 = Some data"
  then have f: "session url 0 = None" "session url 1 = None" "session url 2 = None"
    "session url 3 = None"
    by simp_all
  have "download_archive session url = download_loop session url 4 (replicate 4 RETRY_INTERVAL)"
    unfolding download_archive_def
    using f by (simp add: download_loop_fail MAX_RETRIES_def numeral_eq_Suc)
  also have "\<dots> = (Inr data, replicate 4 RETRY_INTERVAL)"
    using a by (simp add: download_loop_ok MAX_RETRIES_def)
  finally show "download_archive session url = (Inr data, replicate 4 RETRY_INTERVAL)" .
next
  assume a: "\<forall>k<5. session url k = None"
  then have f: "session url 0 = None" "session url 1 = None" "session url 2 = None"
    "session url 3 = None" "session url 4 = None"
    by simp_all
  have "download_archive session url = download_loop session url 4 (replicate 4 RETRY_INTERVAL)"
    unfolding download_archive_def
    using f by (simp add: download_loop_fail MAX_RETRIES_def numeral_eq_Suc)
  also have "\<dots> = (Inl (DownloadFailed url), replicate 4 RETRY_INTERVAL)"
    using f by (simp add: download_loop_last MAX_RETRIES_def)
  finally show
    "download_archive session url = (Inl (DownloadFailed url), replicate 4 RETRY_INTERVAL)" .
qed

theorem download_archive_retry_witness:
  "download_archive (\<lambda>url k. if k = 4 then Some [1, 2, 3] else None) (str_of ''u'')
     = (Inr [1, 2, 3], [5, 5, 5, 5]) \<and>
   download_archive (\<lambda>url k. None) (str_of ''u'')
     = (Inl (DownloadFailed (str_of ''u'')), [5, 5, 5, 5])"
  using download_archive_retry [of "\<lambda>url k. if k = 4 then Some [1, 2, 3] else None" "str_of ''u''" "[1, 2, 3]"]
    download_archive_retry [of "\<lambda>url k. None" "str_of ''u''"]
  by (simp add: RETRY_INTERVAL_def numeral_eq_Suc)

section \<open>Evaluating the examples\<close>

lemma download_all_fail:
  "fst (download_archive (\<lambda>url k. None) u) = Inl (DownloadFailed u)"
  by (simp add: download_archive_def download_loop_fail download_loop_last MAX_RETRIES_def)

lemma download_first_ok:
  "fst (download_archive (\<lambda>url k. Some data) u) = Inr data"
  by (simp add: download_archive_def download_loop_ok MAX_RETRIES_def)

lemma split_stray:
  "split (str_of ''./tmp/other/x.txt'') [47] =
     [str_of ''.'', str_of ''tmp'', str_of ''other'', str_of ''x.txt'']"
  by (simp add: split_def str_of_def)

lemma split_dns:
  "split (str_of ''./tmp/dns/x.txt'') [47] =
     [str_of ''.'', str_of ''tmp'', str_of ''dns'', str_of ''x.txt'']"
  by (simp add: split_def str_of_def)

lemma splitlines_plain:
  "splitlines (str_of ''! url: http://a'' @ 10 # str_of ''b'') =
     [str_of ''! url: http://a'', str_of ''b'']"
  by (simp add: splitlines_def str_of_def is_linebreak_def)

lemma splitlines_tight:
  "splitlines (str_of ''!url: http://a'' @ 10 # str_of ''b'') =
     [str_of ''!url: http://a'', str_of ''b'']"
  by (simp add: splitlines_def str_of_def is_linebreak_def)

lemma url_match_plain:
  "url_match (strip (str_of ''! url: http://a'')) = Some (str_of ''http://a'')"
  by (simp add: strip_def str_of_def isspace_def token_after_spaces_def)

lemma url_match_tight: "url_match (strip (str_of ''!url: http://a'')) = None"
  by (simp add: strip_def str_of_def isspace_def)

lemma specified_tight:
  "specified_directive_match (str_of ''!url: http://a'') = Some (str_of ''http://a'')"
  by (simp add: str_of_def isspace_def token_after_spaces_def)

lemma stray_entry:
  "member_entry stray_member = Inr (Some (str_of ''other'', str_of ''http://a'', str_of ''b''))"
  by (simp add: member_entry_def stray_member_def split_stray splitlines_plain url_match_plain)

lemma plain_entry:
  "member_entry plain_member = Inr (Some (str_of ''dns'', str_of ''http://a'', str_of ''b''))"
  by (simp add: member_entry_def plain_member_def split_dns splitlines_plain url_match_plain)

lemma tight_entry: "member_entry tight_member = Inr None"
  by (simp add: member_entry_def tight_member_def split_dns splitlines_tight url_match_tight)

lemma unreadable_entry: "member_entry unreadable_member = Inl TarError"
  by (simp add: member_entry_def unreadable_member_def split_dns)

section \<open>A failed refresh\<close>

text \<open>
  C9. When the download returns normally with a zero-length body,
  \<open>download_and_parse_archive\<close> raises and leaves the corpus and both times as they
  were. The result does not depend on \<open>untar\<close>: the archive is never opened.
\<close>

theorem empty_body_is_failure:
  "download_archive (net env) archive_url = (Inr [], sleeps) \<Longrightarrow>
   download_and_parse_archive untar env archive_url g = (Inl EmptyDownload, g)"
  by (simp add: download_and_parse_archive_def)

theorem empty_body_is_failure_witness:
  "download_archive (\<lambda>url k. Some []) (str_of ''u'') = (Inr [], []) \<and>
   download_and_parse_archive (\<lambda>b. Some [plain_member]) \<lparr>net = \<lambda>url k. Some [], now = 7\<rparr>
       (str_of ''u'') stale_globals
     = (Inl EmptyDownload, stale_globals)"
proof -
  have h: "download_archive (net \<lparr>net = \<lambda>url k. Some [], now = 7\<rparr>) (str_of ''u'') = (Inr [], [])"
    by (simp add: download_archive_def download_loop_ok MAX_RETRIES_def)
  show ?thesis
    using h empty_body_is_failure [OF h] by simp
qed

text \<open>
  C6. A run of \<open>download_and_parse_archive\<close> that fails in the download, in opening the
  archive, or in reading a member raises, and the corpus and both times are exactly what
  they were before the run; whatever the error, a run that raises returns the globals
  unchanged, so nothing partial is ever published.
\<close>

theorem failed_refresh_keeps_globals:
  "(fst (download_archive (net env) archive_url) = Inl e \<longrightarrow>
      download_and_parse_archive untar env archive_url g = (Inl e, g)) \<and>
   (fst (download_archive (net env) archive_url) = Inr archive_data \<and> archive_data \<noteq> [] \<and>
    untar archive_data = None \<longrightarrow>
      download_and_parse_archive untar env archive_url g = (Inl TarError, g)) \<and>
   (fst (download_archive (net env) archive_url) = Inr archive_data \<and> archive_data \<noteq> [] \<and>
    untar archive_data = Some members \<and> parse_members members [] = Inl e \<longrightarrow>
      download_and_parse_archive untar env archive_url g = (Inl e, g)) \<and>
   (\<forall>e' g'. download_and_parse_archive untar env archive_url g = (Inl e', g') \<longrightarrow> g' = g)"
  by (auto simp: download_and_parse_archive_def split: sum.splits if_splits option.splits)

theorem failed_refresh_keeps_globals_witness:
  "download_and_parse_archive (\<lambda>b. Some []) \<lparr>net = \<lambda>url k. None, now = 9\<rparr> (str_of ''u'')
       stale_globals
     = (Inl (DownloadFailed (str_of ''u'')), stale_globals) \<and>
   download_and_parse_archive (\<lambda>b. None) \<lparr>net = \<lambda>url k. Some [1], now = 9\<rparr> (str_of ''u'')
       stale_globals
     = (Inl TarError, stale_globals) \<and>
   download_and_parse_archive (\<lambda>b. Some [unreadable_member]) \<lparr>net = \<lambda>url k. Some [1], now = 9\<rparr>
       (str_of ''u'') stale_globals
     = (Inl TarError, stale_globals)"
  using
    failed_refresh_keeps_globals [of "\<lparr>net = \<lambda>url k. None, now = 9\<rparr>" "str_of ''u''"
      "DownloadFailed (str_of ''u'')" "\<lambda>b. Some []" stale_globals "[]" "[]"]
    failed_refresh_keeps_globals [of "\<lparr>net = \<lambda>url k. Some [1], now = 9\<rparr>" "str_of ''u''"
      TarError "\<lambda>b. None" stale_globals "[1]" "[]"]
    failed_refresh_keeps_globals [of "\<lparr>net = \<lambda>url k. Some [1], now = 9\<rparr>" "str_of ''u''"
      TarError "\<lambda>b. Some [unreadable_member]" stale_globals "[1]" "[unreadable_member]"]
  by (simp add: download_all_fail download_first_ok unreadable_entry)

section \<open>The two times\<close>

lemma refresh_success:
  "download_and_parse_archive untar env archive_url g = (Inr u, g') \<Longrightarrow>
   last_update_time g' = Some (now env) \<and>
   initial_load_time g' =
     (case initial_load_time g of None \<Rightarrow> Some (now env) | Some t \<Rightarrow> Some t)"
  by (auto simp: download_and_parse_archive_def split: sum.splits if_splits option.splits)

lemma refresh_failure:
  "download_and_parse_archive untar env archive_url g = (Inl e, g') \<Longrightarrow> g' = g"
  by (auto simp: download_and_parse_archive_def split: sum.splits if_splits option.splits)

lemma success_times_simps:
  "success_times [] rs = []"
  "success_times (env # envs) (Inl e # rs) = success_times envs rs"
  "success_times (env # envs) (Inr u # rs) = now env # success_times envs rs"
  by (simp_all add: success_times_def)

lemma run_cycles_times:
  "run_cycles untar archive_url envs g = (rs, g') \<Longrightarrow>
   length rs = length envs \<and>
   last_update_time g' =
     (if success_times envs rs = [] then last_update_time g
      else Some (last (success_times envs rs))) \<and>
   initial_load_time g' =
     (case initial_load_time g of
        Some t \<Rightarrow> Some t
      | None \<Rightarrow> if success_times envs rs = [] then None else Some (hd (success_times envs rs)))"
proof (induction envs arbitrary: g rs g')
  case Nil
  then show ?case by (simp add: success_times_simps split: option.splits)
next
  case (Cons env envs)
  obtain r g1 where step: "download_and_parse_archive untar env archive_url g = (r, g1)"
    by (cases "download_and_parse_archive untar env archive_url g")
  obtain rs1 g2 where rest: "run_cycles untar archive_url envs g1 = (rs1, g2)"
    by (cases "run_cycles untar archive_url envs g1")
  from Cons.prems step rest have eq: "rs = r # rs1" "g' = g2" by auto
  note ih = Cons.IH [OF rest]
  show ?case
  proof (cases r)
    case (Inl e)
    with step have "g1 = g" by (auto dest: refresh_failure)
    with ih eq Inl show ?thesis by (simp add: success_times_simps split: option.splits)
  next
    case (Inr u)
    with step refresh_success [of untar env archive_url g u g1]
    have g1: "last_update_time g1 = Some (now env)"
      "initial_load_time g1 =
         (case initial_load_time g of None \<Rightarrow> Some (now env) | Some t \<Rightarrow> Some t)"
      by auto
    with ih eq Inr show ?thesis by (auto simp: success_times_simps split: option.splits)
  qed
qed

lemma sorted_success_times:
  assumes len: "length rs = length envs" and s: "sorted (map now envs)"
  shows "sorted (success_times envs rs)"
proof -
  have "map (now \<circ> fst) (zip envs rs) = map now envs"
    using len by (simp add: map_fst_zip flip: map_map)
  with s have "sorted (map (now \<circ> fst) (zip envs rs))" by simp
  then show ?thesis unfolding success_times_def by (rule sorted_filter)
qed

lemma sorted_hd_le_last: "sorted (xs :: int list) \<Longrightarrow> xs \<noteq> [] \<Longrightarrow> hd xs \<le> last xs"
  by (cases xs) auto

text \<open>
  C8, amended. Start from the initial globals and make any sequence of runs. Every run
  that returns normally sets \<open>last_update_time\<close> to its clock reading, and sets
  \<open>initial_load_time\<close> to it only if that was still unset, keeping it otherwise. So
  after the sequence \<open>last_update_time\<close> is the reading of the last successful run and
  \<open>initial_load_time\<close> that of the first, and each of them is unset exactly when no run
  has succeeded. \<open>initial_load_time \<le> last_update_time\<close> holds whenever the clock
  readings do not decrease from one run to the next.
\<close>

theorem load_and_update_times:
  assumes "run_cycles untar archive_url envs initial_globals = (rs, g)"
  shows "(\<forall>g0 env g1 u. download_and_parse_archive untar env archive_url g0 = (Inr u, g1) \<longrightarrow>
            last_update_time g1 = Some (now env) \<and>
            initial_load_time g1 =
              (case initial_load_time g0 of None \<Rightarrow> Some (now env) | Some t \<Rightarrow> Some t)) \<and>
         last_update_time g =
           (if success_times envs rs = [] then None else Some (last (success_times envs rs))) \<and>
         initial_load_time g =
           (if success_times envs rs = [] then None else Some (hd (success_times envs rs))) \<and>
         (initial_load_time g = None \<longleftrightarrow> Inr () \<notin> set rs) \<and>
         (last_update_time g = None \<longleftrightarrow> Inr () \<notin> set rs) \<and>
         (sorted (map now envs) \<longrightarrow>
            (\<forall>a b. initial_load_time g = Some a \<and> last_update_time g = Some b \<longrightarrow> a \<le> b))"
proof -
  note t = run_cycles_times [OF assms]
  have len: "length rs = length envs" using t by simp
  have lu: "last_update_time g =
           (if success_times envs rs = [] then None else Some (last (success_times envs rs)))"
    using t by (simp add: initial_globals_def)
  have il: "initial_load_time g =
           (if success_times envs rs = [] then None else Some (hd (success_times envs rs)))"
    using t by (simp add: initial_globals_def)
  have none: "success_times envs rs = [] \<longleftrightarrow> Inr () \<notin> set rs"
    using len by (auto simp: success_times_def filter_empty_conv set_zip in_set_conv_nth)
  have le: "sorted (map now envs) \<longrightarrow>
            (\<forall>a b. initial_load_time g = Some a \<and> last_update_time g = Some b \<longrightarrow> a \<le> b)"
    using sorted_success_times [OF len] sorted_hd_le_last [of "success_times envs rs"] lu il
    by (auto split: if_splits)
  show ?thesis
    using lu il none le refresh_success [of untar _ archive_url] by (simp split: if_splits)
qed

theorem load_and_update_times_witness:
  "run_cycles (\<lambda>b. Some [plain_member]) (str_of ''u'')
     [\<lparr>net = \<lambda>url k. Some [1], now = 10\<rparr>, \<lparr>net = \<lambda>url k. None, now = 20\<rparr>,
      \<lparr>net = \<lambda>url k. Some [1], now = 30\<rparr>] initial_globals
     = ([Inr (), Inl (DownloadFailed (str_of ''u'')), Inr ()],
        \<lparr>url_contents = [(str_of ''dns'', [(str_of ''http://a'', str_of ''b'')])],
         last_update_time = Some 30, initial_load_time = Some 10\<rparr>) \<and>
   sorted [10, 20, 30 :: int] \<and> (10 :: int) \<le> 30"
proof -
  have h: "run_cycles (\<lambda>b. Some [plain_member]) (str_of ''u'')
     [\<lparr>net = \<lambda>url k. Some [1], now = 10\<rparr>, \<lparr>net = \<lambda>url k. None, now = 20\<rparr>,
      \<lparr>net = \<lambda>url k. Some [1], now = 30\<rparr>] initial_globals
     = ([Inr (), Inl (DownloadFailed (str_of ''u'')), Inr ()],
        \<lparr>url_contents = [(str_of ''dns'', [(str_of ''http://a'', str_of ''b'')])],
         last_update_time = Some 30, initial_load_time = Some 10\<rparr>)"
    by (simp add: download_and_parse_archive_def download_first_ok download_all_fail plain_entry
        store_def dict_get_def initial_globals_def)
  have "sorted [10, 20, 30 :: int] \<and> (10 :: int) \<le> 30"
    using load_and_update_times [OF h] by simp
  with h show ?thesis by blast
qed

text \<open>
  C8, as the claim states it, fails: \<open>datetime.now()\<close> is the wall clock and may step
  back. Two successful runs that read 30 and then 10 leave \<open>initial_load_time\<close> at 30 and
  \<open>last_update_time\<close> at 10.
\<close>

theorem clock_steps_back:
  "run_cycles (\<lambda>b. Some [plain_member]) (str_of ''u'')
     [\<lparr>net = \<lambda>url k. Some [1], now = 30\<rparr>, \<lparr>net = \<lambda>url k. Some [1], now = 10\<rparr>]
     initial_globals
     = ([Inr (), Inr ()],
        \<lparr>url_contents = [(str_of ''dns'', [(str_of ''http://a'', str_of ''b'')])],
         last_update_time = Some 10, initial_load_time = Some 30\<rparr>) \<and>
   \<not> (30 :: int) \<le> 10"
  by (simp add: download_and_parse_archive_def download_first_ok plain_entry
      store_def dict_get_def initial_globals_def)

section \<open>Pagination\<close>

lemma truncation_notice_nonempty: "truncation_notice \<noteq> []"
  by (simp add: truncation_notice_def)

lemma split_loop_nonempty:
  "split_loop parts messages cur = (ms, c) \<Longrightarrow> [] \<notin> set messages \<Longrightarrow> [] \<notin> set ms"
proof (induction parts arbitrary: messages cur)
  case Nil
  then show ?case by simp
next
  case (Cons part parts)
  then show ?case
    by (auto simp: truncation_notice_nonempty truncation_notice_nonempty [symmetric]
        split: if_splits)
qed

lemma split_empty: "split [] sep = [[]]"
  by (simp add: split_def)

text \<open>
  C10. No chunk returned by \<open>split_message\<close> is the empty string, and the empty input
  gives the empty list of chunks.
\<close>

theorem split_message_chunks_nonempty:
  "[] \<notin> set (split_message message) \<and> split_message [] = []"
proof
  obtain ms c where l: "split_loop (split message [10, 10]) [] [] = (ms, c)"
    by (cases "split_loop (split message [10, 10]) [] []")
  from split_loop_nonempty [OF l] have "[] \<notin> set ms" by simp
  with l show "[] \<notin> set (split_message message)"
    by (auto simp: split_message_def)
  show "split_message [] = []"
    by (simp add: split_message_def split_empty MAX_MESSAGE_LENGTH_def)
qed

lemma split_from_plain:
  "10 \<notin> set p \<Longrightarrow> split_from [10, 10] cur p = [cur @ p]"
  by (induction p arbitrary: cur) auto

lemma split_from_paragraph:
  "10 \<notin> set p \<Longrightarrow>
   split_from [10, 10] cur (p @ 10 # 10 # rest) = (cur @ p) # split_from [10, 10] [] rest"
  by (induction p arbitrary: cur) auto

lemma long_paragraph_facts:
  "10 \<notin> set long_paragraph" "length long_paragraph = 2048" "long_paragraph \<noteq> []"
  by (auto simp: long_paragraph_def)

lemma split_four_long_paragraphs:
  "split four_long_paragraphs [10, 10] =
     [long_paragraph, long_paragraph, long_paragraph, long_paragraph]"
proof -
  have "split_from [10, 10] []
      (long_paragraph @ 10 # 10 # long_paragraph @ 10 # 10 # long_paragraph @ 10 # 10 # long_paragraph)
      = [long_paragraph, long_paragraph, long_paragraph, long_paragraph]"
    by (simp add: split_from_paragraph split_from_plain long_paragraph_facts)
  then show ?thesis
    by (simp add: split_def four_long_paragraphs_def)
qed

text \<open>
  The number of messages is bounded by \<open>MAX_MESSAGES + 1\<close>, and a list of that length
  ends in the notice.
\<close>

lemma split_loop_length:
  "split_loop parts messages cur = (ms, c) \<Longrightarrow> length messages < MAX_MESSAGES \<Longrightarrow>
   length ms \<le> MAX_MESSAGES + 1 \<and>
   (length ms = MAX_MESSAGES + 1 \<longrightarrow> last ms = truncation_notice)"
proof (induction parts arbitrary: messages cur)
  case Nil
  then show ?case by auto
next
  case (Cons part parts)
  then show ?case
    by (auto simp: MAX_MESSAGES_def split: if_splits)
qed

lemma split_message_length:
  "length (split_message message) \<le> MAX_MESSAGES + 1"
proof -
  obtain ms c where l: "split_loop (split message [10, 10]) [] [] = (ms, c)"
    by (cases "split_loop (split message [10, 10]) [] []")
  from split_loop_length [OF l] have "length ms \<le> MAX_MESSAGES + 1"
    by (simp add: MAX_MESSAGES_def)
  with l show ?thesis
    by (auto simp: split_message_def)
qed

text \<open>
  C1. The claim is that \<open>split_message\<close> never returns more than \<open>MAX_MESSAGES\<close>
  messages. On four paragraphs of 2048 characters it returns the first three paragraphs
  and then the notice: four messages, one more than \<open>MAX_MESSAGES\<close>.
\<close>

theorem split_message_four_messages:
  "split_message four_long_paragraphs =
     [long_paragraph, long_paragraph, long_paragraph, truncation_notice] \<and>
   MAX_MESSAGES < length (split_message four_long_paragraphs)"
  by (simp add: split_message_def split_four_long_paragraphs long_paragraph_facts
      MAX_MESSAGE_LENGTH_def MAX_MESSAGES_def)

section \<open>Categories in the parsed corpus\<close>

lemma dict_get_update:
  "dict_get (AList.update k v d) k' = (if k' = k then v else dict_get d k')"
  by (simp add: dict_get_def update_conv')

lemma dict_get_Nil: "dict_get [] k = []"
  by (simp add: dict_get_def)

lemma store_lookup:
  "map_of (dict_get (store temp c u x) c') u' =
     (if c' = c \<and> u' = u then Some x else map_of (dict_get temp c') u')"
  by (simp add: store_def dict_get_update update_conv')






lemma parse_members_snoc:
  "parse_members ms acc = Inr temp \<Longrightarrow>
   parse_members (ms @ [m]) acc =
     (case member_entry m of
        Inl e \<Rightarrow> Inl e
      | Inr None \<Rightarrow> Inr temp
      | Inr (Some (category, url, content)) \<Rightarrow> Inr (store temp category url content))"
  by (induction ms arbitrary: acc) (auto split: sum.splits option.splits)







section \<open>The directive line\<close>

lemma token_after_spaces_iff:
  "token_after_spaces s = Some tok \<longleftrightarrow>
     (\<exists>ws rest. s = ws @ tok @ rest \<and> (\<forall>c\<in>set ws. isspace c) \<and> tok \<noteq> [] \<and>
        (\<forall>c\<in>set tok. \<not> isspace c) \<and> (rest = [] \<or> isspace (hd rest)))"
proof
  assume a: "token_after_spaces s = Some tok"
  let ?ws = "takeWhile isspace s"
  let ?r = "dropWhile isspace s"
  let ?rest = "dropWhile (\<lambda>c. \<not> isspace c) ?r"
  from a have tok: "tok = takeWhile (\<lambda>c. \<not> isspace c) ?r" "tok \<noteq> []"
    by (auto simp: token_after_spaces_def Let_def split: if_splits)
  have "s = ?ws @ tok @ ?rest"
    using tok by simp
  moreover have "\<forall>c\<in>set ?ws. isspace c"
    by (auto dest: set_takeWhileD)
  moreover have "\<forall>c\<in>set tok. \<not> isspace c"
    using tok by (auto dest: set_takeWhileD)
  moreover have "?rest = [] \<or> isspace (hd ?rest)"
    using hd_dropWhile [of "\<lambda>c. \<not> isspace c" ?r] by auto
  ultimately show "\<exists>ws rest. s = ws @ tok @ rest \<and> (\<forall>c\<in>set ws. isspace c) \<and> tok \<noteq> [] \<and>
        (\<forall>c\<in>set tok. \<not> isspace c) \<and> (rest = [] \<or> isspace (hd rest))"
    using tok(2) by blast
next
  assume "\<exists>ws rest. s = ws @ tok @ rest \<and> (\<forall>c\<in>set ws. isspace c) \<and> tok \<noteq> [] \<and>
        (\<forall>c\<in>set tok. \<not> isspace c) \<and> (rest = [] \<or> isspace (hd rest))"
  then obtain ws rest where s: "s = ws @ tok @ rest" and ws: "\<forall>c\<in>set ws. isspace c"
    and ne: "tok \<noteq> []" and tk: "\<forall>c\<in>set tok. \<not> isspace c"
    and rs: "rest = [] \<or> isspace (hd rest)"
    by blast
  have "\<not> isspace (hd tok)" using ne tk by (cases tok) auto
  then have d: "dropWhile isspace s = tok @ rest"
    using s ws ne by (cases tok) (simp_all add: dropWhile_append3)
  have "takeWhile (\<lambda>c. \<not> isspace c) rest = []"
    using rs by (cases rest) auto
  then have "takeWhile (\<lambda>c. \<not> isspace c) (tok @ rest) = tok"
    using tk by (simp add: takeWhile_append2)
  with d ne show "token_after_spaces s = Some tok"
    by (simp add: token_after_spaces_def)
qed

lemma url_match_iff:
  "url_match s = Some tok \<longleftrightarrow>
     (\<exists>c3 c4 c5 ws rest. s = [33, 32, c3, c4, c5, 58] @ ws @ tok @ rest \<and>
        c3 \<in> {117, 85} \<and> c4 \<in> {114, 82} \<and> c5 \<in> {108, 76} \<and>
        (\<forall>c\<in>set ws. isspace c) \<and> tok \<noteq> [] \<and> (\<forall>c\<in>set tok. \<not> isspace c) \<and>
        (rest = [] \<or> isspace (hd rest)))"
proof
  assume a: "url_match s = Some tok"
  then obtain c1 c2 c3 c4 c5 c6 r where s: "s = c1 # c2 # c3 # c4 # c5 # c6 # r"
    by (cases s rule: url_match.cases) auto
  with a have c: "c1 = 33" "c2 = 32" "c3 \<in> {117, 85}" "c4 \<in> {114, 82}" "c5 \<in> {108, 76}" "c6 = 58"
    and t: "token_after_spaces r = Some tok"
    by (auto split: if_splits)
  from t obtain ws rest where "r = ws @ tok @ rest" "\<forall>c\<in>set ws. isspace c" "tok \<noteq> []"
    "\<forall>c\<in>set tok. \<not> isspace c" "rest = [] \<or> isspace (hd rest)"
    unfolding token_after_spaces_iff by blast
  with s c show "\<exists>c3 c4 c5 ws rest. s = [33, 32, c3, c4, c5, 58] @ ws @ tok @ rest \<and>
        c3 \<in> {117, 85} \<and> c4 \<in> {114, 82} \<and> c5 \<in> {108, 76} \<and>
        (\<forall>c\<in>set ws. isspace c) \<and> tok \<noteq> [] \<and> (\<forall>c\<in>set tok. \<not> isspace c) \<and>
        (rest = [] \<or> isspace (hd rest))"
    by auto
next
  assume "\<exists>c3 c4 c5 ws rest. s = [33, 32, c3, c4, c5, 58] @ ws @ tok @ rest \<and>
        c3 \<in> {117, 85} \<and> c4 \<in> {114, 82} \<and> c5 \<in> {108, 76} \<and>
        (\<forall>c\<in>set ws. isspace c) \<and> tok \<noteq> [] \<and> (\<forall>c\<in>set tok. \<not> isspace c) \<and>
        (rest = [] \<or> isspace (hd rest))"
  then obtain c3 c4 c5 ws rest where s: "s = [33, 32, c3, c4, c5, 58] @ ws @ tok @ rest"
    and c: "c3 \<in> {117, 85}" "c4 \<in> {114, 82}" "c5 \<in> {108, 76}"
    and r: "(\<forall>c\<in>set ws. isspace c) \<and> tok \<noteq> [] \<and> (\<forall>c\<in>set tok. \<not> isspace c) \<and>
        (rest = [] \<or> isspace (hd rest))"
    by blast
  from r have "token_after_spaces (ws @ tok @ rest) = Some tok"
    unfolding token_after_spaces_iff by blast
  with s c show "url_match s = Some tok" by simp
qed

text \<open>
  C3, amended. Take a regular file whose path has at least three segments and whose
  text has at least one line. It is stored if and only if its first line, with the
  surrounding whitespace stripped, matches \<open>^! url:\s*(\S+)\<close> case-insensitively: \<open>!\<close>,
  exactly one space, \<open>url:\<close> in any case, any run of whitespace, then a token, the longest
  run of non-space characters, which is not empty. A file whose first line does not
  match is passed over and the parse goes on with the corpus unchanged. A file that
  matches is stored under its category with the token as the URL and the remaining lines
  joined by newlines as the content.
\<close>

theorem directive_line_decides:
  assumes "isfile m"
    and "length (split (name m) [47]) \<ge> 3"
    and "payload m = Text t"
    and "splitlines t = first_line # rest"
    and "parse_members ms [] = Inr temp"
  shows "((\<exists>entry. member_entry m = Inr (Some entry)) \<longleftrightarrow> url_match (strip first_line) \<noteq> None) \<and>
         (url_match (strip first_line) = None \<longrightarrow>
            member_entry m = Inr None \<and> parse_members (ms @ [m]) [] = Inr temp) \<and>
         (\<forall>url. url_match (strip first_line) = Some url \<longrightarrow>
            member_entry m = Inr (Some (split (name m) [47] ! 2, url, join [10] rest)) \<and>
            parse_members (ms @ [m]) [] =
              Inr (store temp (split (name m) [47] ! 2) url (join [10] rest)) \<and>
            map_of (dict_get (store temp (split (name m) [47] ! 2) url (join [10] rest))
                      (split (name m) [47] ! 2)) url = Some (join [10] rest)) \<and>
         (\<forall>url. url_match (strip first_line) = Some url \<longleftrightarrow>
            (\<exists>c3 c4 c5 ws after. strip first_line = [33, 32, c3, c4, c5, 58] @ ws @ url @ after \<and>
               c3 \<in> {117, 85} \<and> c4 \<in> {114, 82} \<and> c5 \<in> {108, 76} \<and>
               (\<forall>c\<in>set ws. isspace c) \<and> url \<noteq> [] \<and> (\<forall>c\<in>set url. \<not> isspace c) \<and>
               (after = [] \<or> isspace (hd after))))"
proof -
  have entry: "member_entry m =
      (case url_match (strip first_line) of
         Some url \<Rightarrow> Inr (Some (split (name m) [47] ! 2, url, join [10] rest))
       | None \<Rightarrow> Inr None)"
    using assms(1-4) by (simp add: member_entry_def split: option.splits)
  note snoc = parse_members_snoc [OF assms(5), of m]
  have a: "(\<exists>entry. member_entry m = Inr (Some entry)) \<longleftrightarrow> url_match (strip first_line) \<noteq> None"
    by (auto simp: entry split: option.splits)
  have b: "url_match (strip first_line) = None \<longrightarrow>
            member_entry m = Inr None \<and> parse_members (ms @ [m]) [] = Inr temp"
    by (simp add: entry snoc)
  have c: "\<forall>url. url_match (strip first_line) = Some url \<longrightarrow>
            member_entry m = Inr (Some (split (name m) [47] ! 2, url, join [10] rest)) \<and>
            parse_members (ms @ [m]) [] =
              Inr (store temp (split (name m) [47] ! 2) url (join [10] rest)) \<and>
            map_of (dict_get (store temp (split (name m) [47] ! 2) url (join [10] rest))
                      (split (name m) [47] ! 2)) url = Some (join [10] rest)"
    by (simp add: entry snoc store_lookup)
  from a b c url_match_iff [of "strip first_line"] show ?thesis by blast
qed

theorem directive_line_decides_witness:
  "parse_members ([stray_member] @ [plain_member]) [] =
     Inr [(str_of ''other'', [(str_of ''http://a'', str_of ''b'')]),
          (str_of ''dns'', [(str_of ''http://a'', str_of ''b'')])] \<and>
   parse_members ([stray_member] @ [tight_member]) [] =
     Inr [(str_of ''other'', [(str_of ''http://a'', str_of ''b'')])]"
proof -
  have p: "parse_members [stray_member] [] =
      Inr [(str_of ''other'', [(str_of ''http://a'', str_of ''b'')])]"
    by (simp add: stray_entry store_def dict_get_def)
  have f: "isfile plain_member" "isfile tight_member"
    by (simp_all add: plain_member_def tight_member_def)
  have l: "length (split (name plain_member) [47]) \<ge> 3" "length (split (name tight_member) [47]) \<ge> 3"
    by (simp_all add: plain_member_def tight_member_def split_dns)
  have t: "payload plain_member = Text (str_of ''! url: http://a'' @ 10 # str_of ''b'')"
    "payload tight_member = Text (str_of ''!url: http://a'' @ 10 # str_of ''b'')"
    by (simp_all add: plain_member_def tight_member_def)
  have n: "split (name plain_member) [47] ! 2 = str_of ''dns''"
    by (simp add: plain_member_def split_dns)
  have s: "store [(str_of ''other'', [(str_of ''http://a'', str_of ''b'')])] (str_of ''dns'')
      (str_of ''http://a'') (str_of ''b'') =
     [(str_of ''other'', [(str_of ''http://a'', str_of ''b'')]),
      (str_of ''dns'', [(str_of ''http://a'', str_of ''b'')])]"
    by (simp add: store_def dict_get_def str_of_def)
  have "parse_members ([stray_member] @ [plain_member]) [] =
     Inr [(str_of ''other'', [(str_of ''http://a'', str_of ''b'')]),
          (str_of ''dns'', [(str_of ''http://a'', str_of ''b'')])]"
    using directive_line_decides [OF f(1) l(1) t(1) splitlines_plain p] url_match_plain n s
    by simp
  moreover have "parse_members ([stray_member] @ [tight_member]) [] =
     Inr [(str_of ''other'', [(str_of ''http://a'', str_of ''b'')])]"
    using directive_line_decides [OF f(2) l(2) t(2) splitlines_tight p] url_match_tight
    by simp
  ultimately show ?thesis by blast
qed

text \<open>
  C3, as the claim states it, fails: the first line \<open>!url: http://a\<close> matches the
  pattern \<open>^!\s*url:\s*(\S+)\<close>, yet the file is not stored.
\<close>

theorem specified_pattern_differs:
  "isfile tight_member \<and> length (split (name tight_member) [47]) \<ge> 3 \<and>
   payload tight_member = Text (str_of ''!url: http://a'' @ 10 # str_of ''b'') \<and>
   splitlines (str_of ''!url: http://a'' @ 10 # str_of ''b'') = [str_of ''!url: http://a'', str_of ''b''] \<and>
   specified_directive_match (str_of ''!url: http://a'') = Some (str_of ''http://a'') \<and>
   member_entry tight_member = Inr None \<and>
   parse_members [tight_member] [] = Inr []"
  by (simp add: tight_entry specified_tight splitlines_tight)
     (simp add: tight_member_def split_dns)

section \<open>Searching\<close>

lemma matching_lines_eq:
  "matching_lines hit idx lines =
     map (\<lambda>j. (idx + j, strip (lines ! j))) (filter (\<lambda>j. hit (lines ! j)) [0..<length lines])"
proof (induction lines arbitrary: idx)
  case Nil
  show ?case by simp
next
  case (Cons line lines)
  have upt: "[0..<length (line # lines)] = 0 # map Suc [0..<length lines]"
    by (simp add: upt_conv_Cons map_Suc_upt del: upt_Suc)
  show ?case
    unfolding upt by (simp add: Cons.IH filter_map comp_def)
qed

lemma matching_lines_content_empty: "matching_lines hit idx (splitlines []) = []"
  by (simp add: splitlines_def)

lemma scan_urls_lookup:
  "distinct (map fst items) \<Longrightarrow>
   map_of (dict_get (scan_urls hit cat items found_results) c) u =
     (if c = cat then
        (case map_of items u of
           None \<Rightarrow> map_of (dict_get found_results c) u
         | Some content \<Rightarrow>
             (case url_hits hit content of
                None \<Rightarrow> map_of (dict_get found_results c) u
              | Some ml \<Rightarrow> Some ml))
      else map_of (dict_get found_results c) u)"
proof (induction items arbitrary: found_results)
  case Nil
  then show ?case by simp
next
  case (Cons item items)
  obtain url content where item: "item = (url, content)" by (cases item)
  from Cons.prems item have d: "distinct (map fst items)" and nin: "map_of items url = None"
    by (auto simp: map_of_eq_None_iff)
  note ih = Cons.IH [OF d]
  show ?case
  proof (cases "url_hits hit content")
    case None
    then have "scan_urls hit cat (item # items) found_results = scan_urls hit cat items found_results"
      by (simp add: item url_hits_def split: if_splits)
    then show ?thesis
      using None nin by (simp add: ih item split: option.splits)
  next
    case (Some ml)
    then have ml: "ml = matching_lines hit 1 (splitlines content)" "ml \<noteq> []" "content \<noteq> []"
      by (auto simp: url_hits_def matching_lines_content_empty split: if_splits)
    then have "scan_urls hit cat (item # items) found_results =
        scan_urls hit cat items
          (AList.update cat (AList.update url ml (dict_get found_results cat)) found_results)"
      by (simp add: item)
    then show ?thesis
      using Some nin by (simp add: ih item dict_get_update update_conv' split: option.splits)
  qed
qed

lemma scan_categories_lookup:
  "(\<forall>cat\<in>set cats. distinct (map fst (dict_get contents cat))) \<Longrightarrow>
   map_of (dict_get (scan_categories hit cats contents found_results) c) u =
     (if c \<in> set cats then
        (case map_of (dict_get contents c) u of
           None \<Rightarrow> map_of (dict_get found_results c) u
         | Some content \<Rightarrow>
             (case url_hits hit content of
                None \<Rightarrow> map_of (dict_get found_results c) u
              | Some ml \<Rightarrow> Some ml))
      else map_of (dict_get found_results c) u)"
proof (induction cats arbitrary: found_results)
  case Nil
  then show ?case by simp
next
  case (Cons cat cats)
  then have d: "\<forall>cat\<in>set cats. distinct (map fst (dict_get contents cat))"
    and dc: "distinct (map fst (dict_get contents cat))"
    by auto
  show ?case
    by (simp add: Cons.IH [OF d] scan_urls_lookup [OF dc] split: option.splits)
qed

lemma is_corpus_category: "is_corpus contents \<Longrightarrow> distinct (map fst (dict_get contents cat))"
  by (auto simp: is_corpus_def is_dict_def dict_get_def split: option.splits dest!: map_of_SomeD)

lemma url_hits_eq:
  "url_hits hit content =
     (let lines = splitlines content;
          hits = map (\<lambda>j. (j + 1, strip (lines ! j))) (filter (\<lambda>j. hit (lines ! j)) [0..<length lines])
      in if hits = [] then None else Some hits)"
  by (simp add: url_hits_def matching_lines_eq Let_def)

lemma search_request_cases:
  "search_request lower args = Inr (category, keyword) \<Longrightarrow>
   category \<in> set VALID_CATEGORIES \<and> keyword \<noteq> [] \<and> (\<exists>k. keyword = lower k)"
  by (auto simp: search_request_def VALID_CATEGORIES_def split: if_splits)

lemma search_request_no_results:
  "search_request lower args \<noteq> Inl (Results category keyword found_results)"
  by (simp add: search_request_def)

lemma hits_sorted:
  "sorted_wrt (<) (map fst (map (\<lambda>j. (j + 1, f j)) (filter P [0..<n])))"
proof -
  have "sorted_wrt (<) (filter P [0..<n])"
    by (rule sorted_wrt_filter) simp
  then show ?thesis
    by (simp add: sorted_wrt_map comp_def)
qed

text \<open>
  C4. Let the corpus be a dict of dicts and let \<open>search\<close> reach its scan, with a valid
  category and a keyword that is not empty and is the lowered text of the arguments.
  Then, for every category and URL, \<open>found_results\<close> has an entry exactly when the
  category is among those searched, the URL is in the corpus under it, and some line of
  its content, lowered, contains the keyword; the entry is then the list of all such
  lines in ascending order, each as its line number counted from 1 with the line
  stripped of surrounding whitespace. The entry of a URL is never the empty list.
\<close>

theorem search_records_matching_lines:
  assumes "is_corpus contents"
    and "search_decide lower args contents = (Results category keyword found_results :: 'e outcome)"
  shows "category \<in> set VALID_CATEGORIES \<and> keyword \<noteq> [] \<and>
         (\<exists>k. keyword = lower k) \<and>
         categories_to_search (str_of ''all'') = [str_of ''content'', str_of ''dns''] \<and>
         (category \<noteq> str_of ''all'' \<longrightarrow> categories_to_search category = [category]) \<and>
         map_of (dict_get found_results cat) url =
           (if cat \<in> set (categories_to_search category) then
              (case map_of (dict_get contents cat) url of
                 None \<Rightarrow> None
               | Some content \<Rightarrow>
                   (let lines = splitlines content;
                        hits = map (\<lambda>j. (j + 1, strip (lines ! j)))
                                 (filter (\<lambda>j. sublist keyword (lower (lines ! j))) [0..<length lines])
                    in if hits = [] then None else Some hits))
            else None) \<and>
         (\<forall>hits. map_of (dict_get found_results cat) url = Some hits \<longrightarrow>
            hits \<noteq> [] \<and> sorted_wrt (<) (map fst hits))"
proof -
  from assms(2)
  have req: "(search_request lower args :: 'e outcome + str \<times> str) = Inr (category, keyword)"
    and fr: "found_results = search_found lower category keyword contents"
    using search_request_no_results [of lower args category keyword found_results]
    by (auto simp: search_decide_def split: sum.splits prod.splits)
  note facts = search_request_cases [OF req]
  have d: "\<forall>c\<in>set (categories_to_search category). distinct (map fst (dict_get contents c))"
    using is_corpus_category [OF assms(1)] by simp
  have lookup: "map_of (dict_get found_results cat) url =
           (if cat \<in> set (categories_to_search category) then
              (case map_of (dict_get contents cat) url of
                 None \<Rightarrow> None
               | Some content \<Rightarrow>
                   (let lines = splitlines content;
                        hits = map (\<lambda>j. (j + 1, strip (lines ! j)))
                                 (filter (\<lambda>j. sublist keyword (lower (lines ! j))) [0..<length lines])
                    in if hits = [] then None else Some hits))
            else None)"
    unfolding fr search_found_def scan_categories_lookup [OF d]
    by (simp add: dict_get_Nil url_hits_eq split: option.splits)
  have sorted: "\<forall>hits. map_of (dict_get found_results cat) url = Some hits \<longrightarrow>
            hits \<noteq> [] \<and> sorted_wrt (<) (map fst hits)"
    unfolding lookup
    using hits_sorted by (auto simp: Let_def split: if_splits option.splits)
  have cats: "categories_to_search (str_of ''all'') = [str_of ''content'', str_of ''dns'']"
    "category \<noteq> str_of ''all'' \<longrightarrow> categories_to_search category = [category]"
    by (simp_all add: categories_to_search_def VALID_CATEGORIES_def)
  from facts cats lookup sorted show ?thesis by blast
qed

lemma sample_is_corpus: "is_corpus sample_corpus"
  by (simp add: is_corpus_def is_dict_def sample_corpus_def)

lemma sample_search:
  "search_decide ascii_lower [str_of ''/dns'', str_of ''AB''] sample_corpus =
     Results (str_of ''dns'') (str_of ''ab'')
       [(str_of ''dns'', [(str_of ''http://a'', [(1, str_of ''Ab''), (3, str_of ''aB'')])])]"
  by (simp add: search_decide_def search_request_def search_found_def categories_to_search_def
      VALID_CATEGORIES_def sample_corpus_def ascii_lower_def str_of_def dict_get_def
      splitlines_def is_linebreak_def strip_def isspace_def sublist_code)

theorem search_records_matching_lines_witness:
  "is_corpus sample_corpus \<and>
   search_decide ascii_lower [str_of ''/dns'', str_of ''AB''] sample_corpus =
     (Results (str_of ''dns'') (str_of ''ab'')
       [(str_of ''dns'', [(str_of ''http://a'', [(1, str_of ''Ab''), (3, str_of ''aB'')])])] :: unit outcome) \<and>
   splitlines (str_of ''Ab'' @ 10 # str_of ''c'' @ 10 # str_of '' aB '') =
     [str_of ''Ab'', str_of ''c'', str_of '' aB ''] \<and>
   sublist (str_of ''ab'') (ascii_lower (str_of ''Ab'')) \<and>
   \<not> sublist (str_of ''ab'') (ascii_lower (str_of ''c'')) \<and>
   sublist (str_of ''ab'') (ascii_lower (str_of '' aB '')) \<and>
   sorted_wrt (<) (map fst [(1 :: nat, str_of ''Ab''), (3, str_of ''aB'')])"
proof -
  have s: "search_decide ascii_lower [str_of ''/dns'', str_of ''AB''] sample_corpus =
     (Results (str_of ''dns'') (str_of ''ab'')
       [(str_of ''dns'', [(str_of ''http://a'', [(1, str_of ''Ab''), (3, str_of ''aB'')])])] :: unit outcome)"
    by (rule sample_search)
  have l: "splitlines (str_of ''Ab'' @ 10 # str_of ''c'' @ 10 # str_of '' aB '') =
     [str_of ''Ab'', str_of ''c'', str_of '' aB '']"
    by (simp add: splitlines_def is_linebreak_def str_of_def)
  have m: "sublist (str_of ''ab'') (ascii_lower (str_of ''Ab''))"
    "\<not> sublist (str_of ''ab'') (ascii_lower (str_of ''c''))"
    "sublist (str_of ''ab'') (ascii_lower (str_of '' aB ''))"
    by (simp_all add: ascii_lower_def str_of_def sublist_code)
  have "sorted_wrt (<) (map fst [(1 :: nat, str_of ''Ab''), (3, str_of ''aB'')])"
    using search_records_matching_lines [OF sample_is_corpus s, of "str_of ''dns''" "str_of ''http://a''"]
    by (simp add: dict_get_def)
  with sample_is_corpus s l m show ?thesis by blast
qed

section \<open>Regular expression search\<close>







end
